theory Spec2Isabelle
  imports Main "HOL-Library.Word"
begin

section \<open>The instance manager of \<open>app/src/cpp_instance_manager.h\<close>\<close>

text \<open>
  \<open>CppInstanceManager<InstanceClass>\<close> keeps a table \<open>container_\<close> from instance
  addresses to \<open>int32_t\<close> reference counts (the field \<open>container\<close> below), guarded
  by \<open>manager_mutex_\<close>.

  \<^item> An \<open>InstanceClass*\<close> is used as a key only, so a pointer is its address, a \<open>nat\<close>,
    with \<open>nullptr\<close> the address 0.
  \<^item> A count is an \<open>int32_t\<close>: a \<open>32 word\<close>, read as a signed number by \<open>sint\<close>.
    \<open>++\<close> and \<open>--\<close> are \<open>+ 1\<close> and \<open>- 1\<close> on the word, that is, the two's-complement
    result of the machine instruction (C++ itself leaves signed overflow undefined).
  \<^item> \<open>delete it->first\<close> is an effect outside the table: the model records it in
    \<open>deleted\<close>, the list of the addresses passed to \<open>delete\<close>, oldest first.
  \<^item> Every call holds \<open>manager_mutex_\<close> (a scoped \<open>MutexLock\<close>) from before its first
    access to \<open>container_\<close> until it returns, so a call is one step on the state.
\<close>

type_synonym ptr = nat

definition nullptr :: ptr where
  "nullptr = 0"

type_synonym int32 = "32 word"

record manager =
  container :: "ptr \<rightharpoonup> int32"
  deleted :: "ptr list"

datatype error = Assertion_Failed

text \<open>The manager as the default constructor leaves it.\<close>

definition CppInstanceManager :: manager where
  "CppInstanceManager = \<lparr>container = Map.empty, deleted = []\<rparr>"

text \<open>
  \<open>std::unordered_map::emplace\<close>: inserts the pair unless the key is present; gives the
  table, the mapped value of the element the returned iterator points to, and whether
  the insertion took place.
\<close>

definition emplace :: "(ptr \<rightharpoonup> int32) \<Rightarrow> ptr \<Rightarrow> int32 \<Rightarrow> (ptr \<rightharpoonup> int32) \<times> int32 \<times> bool" where
  "emplace m k v = (case m k of None \<Rightarrow> (m(k \<mapsto> v), v, True) | Some old \<Rightarrow> (m, old, False))"

text \<open>
  Modelled from the spec: the macros \<open>FIREBASE_DEV_ASSERT\<close> and
  \<open>FIREBASE_DEV_ASSERT_MESSAGE\<close> come from \<open>app/src/assert.h\<close>, which is not among the
  sources. The spec calls them debug-only assertions: in a debug build a false condition
  stops the call (\<open>Inl Assertion_Failed\<close>), in a release build nothing is checked.
  The build is the parameter \<open>dev_assert\<close>.
\<close>

definition AddReference :: "bool \<Rightarrow> manager \<Rightarrow> ptr \<Rightarrow> error + manager \<times> int32" where
  "AddReference dev_assert s instance =
     (if dev_assert \<and> instance = nullptr then Inl Assertion_Failed
      else case container s instance of
        Some c \<Rightarrow>
          let c' = c + 1
          in Inr (s\<lparr>container := (container s)(instance \<mapsto> c')\<rparr>, c')
      | None \<Rightarrow>
          let (m, v, inserted) = emplace (container s) instance 1
          in if dev_assert \<and> \<not> inserted then Inl Assertion_Failed
             else Inr (s\<lparr>container := m\<rparr>, v))"

definition ReleaseReference :: "manager \<Rightarrow> ptr \<Rightarrow> manager \<times> int32" where
  "ReleaseReference s instance =
     (if instance = nullptr then (s, - 1)
      else case container s instance of
        Some c \<Rightarrow>
          let count = c - 1
          in if count = 0
             then (s\<lparr>container := (container s)(instance := None),
                     deleted := deleted s @ [instance]\<rparr>, count)
             else (s\<lparr>container := (container s)(instance \<mapsto> count)\<rparr>, count)
      | None \<Rightarrow> (s, - 1))"

text \<open>
  The destructor. Its body holds nothing but a disabled clean-up loop (the comment
  \<open>TODO(b/121161177)\<close>); then the members are destroyed, so the table goes away, and
  destroying a table of raw pointers deletes none of the instances.
\<close>

definition destructor :: "manager \<Rightarrow> manager" where
  "destructor s = s\<lparr>container := Map.empty\<rparr>"

subsection \<open>Sequences of calls\<close>

text \<open>
  The public interface: the two operations and the accessor \<open>mutex()\<close>, which returns a
  reference to \<open>manager_mutex_\<close> and reads or writes nothing else.
  \<open>exec\<close> runs a sequence of calls one after the other and collects what they return;
  a failed assertion ends the run.
\<close>

datatype call = Add ptr | Release ptr | Mutex

datatype ret = Count int32 | Mutex_Ref

fun do_call :: "bool \<Rightarrow> manager \<Rightarrow> call \<Rightarrow> error + manager \<times> ret" where
  "do_call dev_assert s (Add x) =
     (case AddReference dev_assert s x of
        Inl e \<Rightarrow> Inl e
      | Inr (s', r) \<Rightarrow> Inr (s', Count r))"
| "do_call dev_assert s (Release x) =
     (case ReleaseReference s x of (s', r) \<Rightarrow> Inr (s', Count r))"
| "do_call dev_assert s Mutex = Inr (s, Mutex_Ref)"

fun exec :: "bool \<Rightarrow> manager \<Rightarrow> call list \<Rightarrow> error + manager \<times> ret list" where
  "exec dev_assert s [] = Inr (s, [])"
| "exec dev_assert s (c # cs) =
     (case do_call dev_assert s c of
        Inl e \<Rightarrow> Inl e
      | Inr (s', r) \<Rightarrow>
          (case exec dev_assert s' cs of
             Inl e \<Rightarrow> Inl e
           | Inr (s'', rs) \<Rightarrow> Inr (s'', r # rs)))"

text \<open>
  Threads. Each thread has a program, a list of calls; an interleaving of the programs
  \<open>ts\<close> takes, at every step, the next call of some thread that still has one. As every
  call runs under the mutex, a concurrent execution is such a sequence of whole calls.
\<close>

inductive interleaving :: "'a list list \<Rightarrow> 'a list \<Rightarrow> bool" where
  finished: "\<forall>t \<in> set ts. t = [] \<Longrightarrow> interleaving ts []"
| step: "i < length ts \<Longrightarrow> ts ! i = c # rest \<Longrightarrow> interleaving (ts[i := rest]) cs
           \<Longrightarrow> interleaving ts (c # cs)"

subsection \<open>The invariant of the table\<close>

text \<open>Every stored count is positive, as a signed number.\<close>

definition positive_counts :: "manager \<Rightarrow> bool" where
  "positive_counts s = (\<forall>x c. container s x = Some c \<longrightarrow> 0 < sint c)"

section \<open>The two operations, case by case\<close>

lemma AddReference_present:
  "instance \<noteq> nullptr \<Longrightarrow> container s instance = Some c \<Longrightarrow>
     AddReference dev_assert s instance =
       Inr (s\<lparr>container := (container s)(instance \<mapsto> c + 1)\<rparr>, c + 1)"
  by (simp add: AddReference_def Let_def)

lemma AddReference_absent:
  "instance \<noteq> nullptr \<Longrightarrow> container s instance = None \<Longrightarrow>
     AddReference dev_assert s instance =
       Inr (s\<lparr>container := (container s)(instance \<mapsto> 1)\<rparr>, 1)"
  by (simp add: AddReference_def emplace_def)

lemma ReleaseReference_null:
  "ReleaseReference s nullptr = (s, - 1)"
  by (simp add: ReleaseReference_def)

lemma ReleaseReference_absent:
  "container s instance = None \<Longrightarrow> ReleaseReference s instance = (s, - 1)"
  by (simp add: ReleaseReference_def)

lemma ReleaseReference_last:
  "instance \<noteq> nullptr \<Longrightarrow> container s instance = Some 1 \<Longrightarrow>
     ReleaseReference s instance =
       (s\<lparr>container := (container s)(instance := None),
          deleted := deleted s @ [instance]\<rparr>, 0)"
  by (simp add: ReleaseReference_def)

lemma ReleaseReference_more:
  "instance \<noteq> nullptr \<Longrightarrow> container s instance = Some c \<Longrightarrow> c \<noteq> 1 \<Longrightarrow>
     ReleaseReference s instance =
       (s\<lparr>container := (container s)(instance \<mapsto> c - 1)\<rparr>, c - 1)"
  by (simp add: ReleaseReference_def Let_def)

lemma exec_append:
  "exec d s (as @ bs) =
     (case exec d s as of
        Inl e \<Rightarrow> Inl e
      | Inr (t, rs) \<Rightarrow>
          (case exec d t bs of
             Inl e \<Rightarrow> Inl e
           | Inr (u, rs') \<Rightarrow> Inr (u, rs @ rs')))"
  by (induction as arbitrary: s) (auto split: sum.splits prod.splits)

lemma AddReference_deleted:
  "AddReference d s x = Inr (s', r) \<Longrightarrow> deleted s' = deleted s"
  by (auto simp: AddReference_def Let_def emplace_def split: if_splits option.splits)

lemma AddReference_other:
  "AddReference d s x = Inr (s', r) \<Longrightarrow> y \<noteq> x \<Longrightarrow> container s' y = container s y"
  by (auto simp: AddReference_def Let_def emplace_def split: if_splits option.splits)

lemma ReleaseReference_other:
  "y \<noteq> x \<Longrightarrow> container (fst (ReleaseReference s x)) y = container s y"
  by (auto simp: ReleaseReference_def Let_def split: if_splits option.splits)

lemma ReleaseReference_deleted:
  "deleted (fst (ReleaseReference s x)) =
     deleted s @ (if x \<noteq> nullptr \<and> container s x = Some 1 then [x] else [])"
  by (auto simp: ReleaseReference_def Let_def split: if_splits option.splits)

lemma do_call_untracked:
  "do_call d s c = Inr (s', r) \<Longrightarrow> c \<noteq> Add x \<Longrightarrow> container s x = None \<Longrightarrow>
     container s' x = None"
  by (cases c)
     (auto simp: AddReference_def ReleaseReference_def Let_def emplace_def
           split: if_splits option.splits sum.splits prod.splits)

lemma exec_untracked:
  "exec d s cs = Inr (s', rs) \<Longrightarrow> Add x \<notin> set cs \<Longrightarrow> container s x = None \<Longrightarrow>
     container s' x = None"
proof (induction cs arbitrary: s rs)
  case Nil
  then show ?case by simp
next
  case (Cons c cs)
  from Cons.prems(1) obtain t r rs' where
    c: "do_call d s c = Inr (t, r)" and cs: "exec d t cs = Inr (s', rs')"
    by (auto split: sum.splits prod.splits)
  from c Cons.prems(2,3) have "container t x = None"
    by (auto dest: do_call_untracked)
  with Cons.IH [OF cs] Cons.prems(2) show ?case by simp
qed

subsection \<open>Runs on one instance\<close>

lemma exec_snoc:
  "exec d s cs = Inr (t, rs) \<Longrightarrow> do_call d t c = Inr (t', r) \<Longrightarrow>
     exec d s (cs @ [c]) = Inr (t', rs @ [r])"
  by (simp add: exec_append)

lemma do_call_Add_present:
  "x \<noteq> nullptr \<Longrightarrow> container s x = Some c \<Longrightarrow>
     do_call d s (Add x) = Inr (s\<lparr>container := (container s)(x \<mapsto> c + 1)\<rparr>, Count (c + 1))"
  by (simp add: AddReference_present)

lemma do_call_Release_more:
  "x \<noteq> nullptr \<Longrightarrow> container s x = Some c \<Longrightarrow> c \<noteq> 1 \<Longrightarrow>
     do_call d s (Release x) = Inr (s\<lparr>container := (container s)(x \<mapsto> c - 1)\<rparr>, Count (c - 1))"
  by (simp add: ReleaseReference_more)

lemma do_call_Release_last:
  "x \<noteq> nullptr \<Longrightarrow> container s x = Some 1 \<Longrightarrow>
     do_call d s (Release x) =
       Inr (s\<lparr>container := (container s)(x := None), deleted := deleted s @ [x]\<rparr>, Count 0)"
  by (simp add: ReleaseReference_last)

lemma of_nat_int32_eq_1:
  "k < 2 ^ 32 \<Longrightarrow> (of_nat k :: int32) = 1 \<Longrightarrow> k = 1"
proof -
  assume k: "k < 2 ^ 32" and e: "(of_nat k :: int32) = 1"
  from e have "unat (of_nat k :: int32) = unat (1 :: int32)" by simp
  then have "k mod 2 ^ 32 = 1" by (simp add: unat_of_nat)
  with k show "k = 1" by simp
qed

text \<open>
  Calls on one instance \<open>x\<close>, from a state where \<open>x\<close> is not tracked, such that after
  every call \<open>x\<close> has been added more often than released: every call returns, nothing
  is deleted, and the count of \<open>x\<close> is the number of adds minus the number of releases.
\<close>

lemma exec_one_instance:
  assumes x: "x \<noteq> nullptr" and untracked: "container s x = None"
  shows "cs \<noteq> [] \<Longrightarrow> set cs \<subseteq> {Add x, Release x} \<Longrightarrow>
     (\<forall>n. 0 < n \<and> n \<le> length cs \<longrightarrow>
        count_list (take n cs) (Release x) < count_list (take n cs) (Add x)) \<Longrightarrow>
     count_list cs (Add x) < 2 ^ 32 \<Longrightarrow>
     \<exists>s' rs. exec d s cs = Inr (s', rs)
        \<and> container s' x = Some (of_nat (count_list cs (Add x) - count_list cs (Release x)))
        \<and> (\<forall>y. y \<noteq> x \<longrightarrow> container s' y = container s y)
        \<and> deleted s' = deleted s
        \<and> length rs = length cs
        \<and> last rs = Count (of_nat (count_list cs (Add x) - count_list cs (Release x)))"
proof (induction cs rule: rev_induct)
  case Nil
  then show ?case by simp
next
  case (snoc c cs)
  let ?A = "count_list cs (Add x)" and ?R = "count_list cs (Release x)"
  from snoc.prems(2) have sub: "set cs \<subseteq> {Add x, Release x}"
    and c: "c = Add x \<or> c = Release x" by auto
  have pre: "\<forall>n. 0 < n \<and> n \<le> length cs \<longrightarrow>
        count_list (take n cs) (Release x) < count_list (take n cs) (Add x)"
  proof (intro allI impI)
    fix n assume n: "0 < n \<and> n \<le> length cs"
    then have "0 < n \<and> n \<le> length (cs @ [c])" by simp
    with snoc.prems(3) have
      "count_list (take n (cs @ [c])) (Release x) < count_list (take n (cs @ [c])) (Add x)"
      by blast
    with n show "count_list (take n cs) (Release x) < count_list (take n cs) (Add x)"
      by simp
  qed
  from snoc.prems(4) have bound: "?A < 2 ^ 32" by (simp split: if_splits)
  from snoc.prems(3) have whole:
    "count_list (cs @ [c]) (Release x) < count_list (cs @ [c]) (Add x)"
    by (metis length_append_singleton le_refl take_all zero_less_Suc)
  show ?case
  proof (cases "cs = []")
    case True
    with whole c have add: "c = Add x" by auto
    let ?t = "s\<lparr>container := (container s)(x \<mapsto> 1)\<rparr>"
    have "exec d s (cs @ [c]) = Inr (?t, [Count 1])"
      using True add x untracked by (simp add: AddReference_absent)
    moreover have "(of_nat (count_list (cs @ [c]) (Add x) - count_list (cs @ [c]) (Release x)) :: int32) = 1"
      using True add by simp
    moreover have "container ?t x = Some 1" by simp
    moreover have "\<forall>y. y \<noteq> x \<longrightarrow> container ?t y = container s y" by simp
    moreover have "deleted ?t = deleted s" by simp
    moreover have "length [Count 1] = length (cs @ [c])" using True by simp
    moreover have "last [Count 1] = Count 1" by simp
    ultimately show ?thesis by metis
  next
    case False
    from snoc.IH [OF False sub pre bound] obtain t rs where
      run: "exec d s cs = Inr (t, rs)"
      and cur: "container t x = Some (of_nat (?A - ?R))"
      and frame: "\<forall>y. y \<noteq> x \<longrightarrow> container t y = container s y"
      and del: "deleted t = deleted s"
      and len: "length rs = length cs"
      by blast
    from c show ?thesis
    proof
      assume add: "c = Add x"
      from whole add have le: "?R \<le> ?A" by simp
      let ?v = "of_nat (?A - ?R) + 1 :: int32"
      let ?t = "t\<lparr>container := (container t)(x \<mapsto> ?v)\<rparr>"
      have "exec d s (cs @ [c]) = Inr (?t, rs @ [Count ?v])"
        unfolding add using run do_call_Add_present [OF x cur] by (rule exec_snoc)
      moreover have "?v = of_nat (count_list (cs @ [c]) (Add x) - count_list (cs @ [c]) (Release x))"
        using le add by (simp add: Suc_diff_le)
      moreover have "container ?t x = Some ?v" by simp
      moreover have "\<forall>y. y \<noteq> x \<longrightarrow> container ?t y = container s y"
        using frame by simp
      moreover have "deleted ?t = deleted s" using del by simp
      moreover have "length (rs @ [Count ?v]) = length (cs @ [c])" using len by simp
      moreover have "last (rs @ [Count ?v]) = Count ?v" by simp
      ultimately show ?thesis by metis
    next
      assume rel: "c = Release x"
      from whole rel have lt: "Suc ?R < ?A" by simp
      have "?A - ?R < 2 ^ 32" using bound by simp
      moreover have "?A - ?R \<noteq> 1" using lt by simp
      ultimately have ne: "(of_nat (?A - ?R) :: int32) \<noteq> 1"
        using of_nat_int32_eq_1 by blast
      let ?v = "of_nat (?A - ?R) - 1 :: int32"
      let ?t = "t\<lparr>container := (container t)(x \<mapsto> ?v)\<rparr>"
      have "exec d s (cs @ [c]) = Inr (?t, rs @ [Count ?v])"
        unfolding rel using run do_call_Release_more [OF x cur ne] by (rule exec_snoc)
      moreover have "?v = of_nat (count_list (cs @ [c]) (Add x) - count_list (cs @ [c]) (Release x))"
      proof -
        have "?A - ?R = Suc (?A - Suc ?R)" using lt by simp
        then have "(of_nat (?A - ?R) :: int32) = of_nat (?A - Suc ?R) + 1"
          by (metis of_nat_Suc add.commute)
        then show ?thesis using rel by simp
      qed
      moreover have "container ?t x = Some ?v" by simp
      moreover have "\<forall>y. y \<noteq> x \<longrightarrow> container ?t y = container s y"
        using frame by simp
      moreover have "deleted ?t = deleted s" using del by simp
      moreover have "length (rs @ [Count ?v]) = length (cs @ [c])" using len by simp
      moreover have "last (rs @ [Count ?v]) = Count ?v" by simp
      ultimately show ?thesis by metis
    qed
  qed
qed


lemma count_list_replicate:
  "count_list (replicate n a) b = (if a = b then n else 0)"
  by (induction n) auto

lemma exec_adds:
  assumes x: "x \<noteq> nullptr" and untracked: "container s x = None"
    and n: "0 < n" "n < 2 ^ 32"
  shows "\<exists>s' rs. exec d s (replicate n (Add x)) = Inr (s', rs)
      \<and> container s' x = Some (of_nat n)
      \<and> (\<forall>y. y \<noteq> x \<longrightarrow> container s' y = container s y)
      \<and> deleted s' = deleted s
      \<and> length rs = n
      \<and> last rs = Count (of_nat n)"
proof -
  let ?cs = "replicate n (Add x)"
  have 1: "?cs \<noteq> []" using n(1) by simp
  have 2: "set ?cs \<subseteq> {Add x, Release x}" by auto
  have 3: "\<forall>m. 0 < m \<and> m \<le> length ?cs \<longrightarrow>
        count_list (take m ?cs) (Release x) < count_list (take m ?cs) (Add x)"
    by (simp add: count_list_replicate)
  have 4: "count_list ?cs (Add x) < 2 ^ 32"
    using n(2) by (simp add: count_list_replicate)
  from exec_one_instance [OF x untracked 1 2 3 4, of d] show ?thesis
    by (simp add: count_list_replicate)
qed

subsection \<open>Signed reading of the counts\<close>

lemma sint_pred: "- (2 ^ 31) < sint (c::int32) \<Longrightarrow> sint (c - 1) = sint c - 1"
proof -
  assume a: "- (2 ^ 31) < sint c"
  have b: "sint c < 2 ^ 31" using sint_lt [of c] by simp
  have "sint (c - 1) = signed_take_bit 31 (sint c - 1)"
    by (simp add: sint_word_ariths)
  also have "\<dots> = sint c - 1"
    using a b by (intro signed_take_bit_int_eq_self) auto
  finally show ?thesis .
qed

lemma sint_succ: "sint (c::int32) < 2 ^ 31 - 1 \<Longrightarrow> sint (c + 1) = sint c + 1"
proof -
  assume a: "sint c < 2 ^ 31 - 1"
  have b: "- (2 ^ 31) \<le> sint c" using sint_ge [of c] by simp
  have "sint (c + 1) = signed_take_bit 31 (sint c + 1)"
    by (simp add: sint_word_ariths)
  also have "\<dots> = sint c + 1"
    using a b by (intro signed_take_bit_int_eq_self) auto
  finally show ?thesis .
qed

lemma positive_counts_update:
  "positive_counts s \<Longrightarrow> 0 < sint c \<Longrightarrow>
     positive_counts (s\<lparr>container := (container s)(x \<mapsto> c)\<rparr>)"
  by (simp add: positive_counts_def)

lemma positive_counts_erase:
  "positive_counts s \<Longrightarrow> positive_counts (s\<lparr>container := (container s)(x := None), deleted := ds\<rparr>)"
  by (simp add: positive_counts_def)

lemma sint_of_nat_int32:
  "n < 2 ^ 31 \<Longrightarrow> sint (of_nat n :: int32) = int n"
proof -
  assume n: "n < 2 ^ 31"
  have "sint (of_nat n :: int32) = signed_take_bit 31 (int n)"
    by (simp add: signed_of_nat)
  also have "\<dots> = int n"
  proof (rule signed_take_bit_int_eq_self)
    show "- (2 ^ 31) \<le> int n" by simp
    from n have "int n < int (2 ^ 31)" by (simp only: of_nat_less_iff)
    then show "int n < 2 ^ 31" by simp
  qed
  finally show ?thesis .
qed

lemma exec_prefix:
  assumes "exec d s (as @ bs) = Inr (u, rs)"
  shows "\<exists>t rs1 rs2. exec d s as = Inr (t, rs1) \<and> exec d t bs = Inr (u, rs2) \<and> rs = rs1 @ rs2"
  using assms by (auto simp: exec_append split: sum.splits prod.splits)

subsection \<open>The invariant, step by step\<close>

lemma manager_eqI:
  "container s = m \<Longrightarrow> deleted s = ds \<Longrightarrow> (s :: manager) = \<lparr>container = m, deleted = ds\<rparr>"
  by (cases s) simp

text \<open>
  The largest \<open>int32_t\<close> count is reached from the freshly constructed manager by
  \<open>2147483647\<close> calls of \<open>AddReference\<close> on one instance, none of which overflows.
\<close>

lemma int32_max_reachable:
  "\<not> isl (exec False CppInstanceManager (replicate 2147483647 (Add 1)))
   \<and> fst (projr (exec False CppInstanceManager (replicate 2147483647 (Add 1))))
       = \<lparr>container = [1 \<mapsto> 2147483647], deleted = []\<rparr>"
proof -
  have h1: "(1::ptr) \<noteq> nullptr" by (simp add: nullptr_def)
  have h2: "container CppInstanceManager 1 = None" by (simp add: CppInstanceManager_def)
  have h3: "(0::nat) < 2147483647" by simp
  have h4: "(2147483647::nat) < 2 ^ 32" by simp
  from exec_adds [OF h1 h2 h3 h4, of False] obtain s' rs where
    run: "exec False CppInstanceManager (replicate 2147483647 (Add 1)) = Inr (s', rs)"
    and cur: "container s' 1 = Some (of_nat 2147483647)"
    and frame: "\<forall>y. y \<noteq> 1 \<longrightarrow> container s' y = container CppInstanceManager y"
    and del: "deleted s' = deleted CppInstanceManager"
    by blast
  have "container s' = [1 \<mapsto> 2147483647]"
  proof (rule ext)
    fix y show "container s' y = [1 \<mapsto> 2147483647] y"
      using cur frame by (cases "y = 1") (simp_all add: CppInstanceManager_def)
  qed
  moreover have "deleted s' = []" using del by (simp add: CppInstanceManager_def)
  ultimately have "s' = \<lparr>container = [1 \<mapsto> 2147483647], deleted = []\<rparr>"
    by (rule manager_eqI)
  with run show ?thesis by (simp only: sum.disc sum.sel fst_conv simp_thms)
qed

text \<open>
  Consecutive calls of \<open>AddReference\<close> on one instance, any number of them: the stored
  count is the number of calls as an \<open>int32_t\<close>, wrapped around. After \<open>4294967296\<close>
  calls from the freshly constructed manager the instance is in the table with count 0.
\<close>

lemma exec_adds_any:
  assumes x: "x \<noteq> nullptr" and untracked: "container s x = None"
  shows "\<exists>s' rs. exec d s (replicate (Suc n) (Add x)) = Inr (s', rs)
      \<and> container s' x = Some (of_nat (Suc n))
      \<and> (\<forall>y. y \<noteq> x \<longrightarrow> container s' y = container s y)
      \<and> deleted s' = deleted s"
proof (induction n)
  case 0
  let ?t = "s\<lparr>container := (container s)(x \<mapsto> 1)\<rparr>"
  have "exec d s (replicate (Suc 0) (Add x)) = Inr (?t, [Count 1])"
    using x untracked by (simp add: AddReference_absent)
  moreover have "container ?t x = Some (of_nat (Suc 0))" by simp
  moreover have "\<forall>y. y \<noteq> x \<longrightarrow> container ?t y = container s y" by simp
  moreover have "deleted ?t = deleted s" by simp
  ultimately show ?case by metis
next
  case (Suc n)
  then obtain t rs where
    run: "exec d s (replicate (Suc n) (Add x)) = Inr (t, rs)"
    and cur: "container t x = Some (of_nat (Suc n))"
    and frame: "\<forall>y. y \<noteq> x \<longrightarrow> container t y = container s y"
    and del: "deleted t = deleted s"
    by blast
  let ?v = "of_nat (Suc n) + 1 :: int32"
  let ?t = "t\<lparr>container := (container t)(x \<mapsto> ?v)\<rparr>"
  have "exec d s (replicate (Suc n) (Add x) @ [Add x]) = Inr (?t, rs @ [Count ?v])"
    using run do_call_Add_present [OF x cur] by (rule exec_snoc)
  moreover have "replicate (Suc n) (Add x) @ [Add x] = replicate (Suc (Suc n)) (Add x)"
    by (simp add: replicate_append_same)
  moreover have "?v = of_nat (Suc (Suc n))" by simp
  moreover have "container ?t x = Some ?v" by simp
  moreover have "\<forall>y. y \<noteq> x \<longrightarrow> container ?t y = container s y"
    using frame by simp
  moreover have "deleted ?t = deleted s" using del by simp
  ultimately show ?case by metis
qed

lemma count_zero_reachable:
  "\<not> isl (exec False CppInstanceManager (replicate 4294967296 (Add 1)))
   \<and> fst (projr (exec False CppInstanceManager (replicate 4294967296 (Add 1))))
       = \<lparr>container = [1 \<mapsto> 0], deleted = []\<rparr>"
proof -
  have h1: "(1::ptr) \<noteq> nullptr" by (simp add: nullptr_def)
  have h2: "container CppInstanceManager 1 = None" by (simp add: CppInstanceManager_def)
  have n: "Suc 4294967295 = 4294967296" by simp
  from exec_adds_any [OF h1 h2, of False 4294967295] obtain s' rs where
    run: "exec False CppInstanceManager (replicate (Suc 4294967295) (Add 1)) = Inr (s', rs)"
    and cur: "container s' 1 = Some (of_nat (Suc 4294967295))"
    and frame: "\<forall>y. y \<noteq> 1 \<longrightarrow> container s' y = container CppInstanceManager y"
    and del: "deleted s' = deleted CppInstanceManager"
    by blast
  have z: "(of_nat 4294967296 :: int32) = 0" by simp
  from cur have cur0: "container s' 1 = Some 0" by (simp only: n z)
  have "container s' = [1 \<mapsto> 0]"
  proof (rule ext)
    fix y show "container s' y = [1 \<mapsto> 0] y"
      using cur0 frame by (cases "y = 1") (simp_all add: CppInstanceManager_def)
  qed
  moreover have "deleted s' = []" using del by (simp add: CppInstanceManager_def)
  ultimately have "s' = \<lparr>container = [1 \<mapsto> 0], deleted = []\<rparr>"
    by (rule manager_eqI)
  with run show ?thesis by (simp only: n sum.disc sum.sel fst_conv simp_thms)
qed

lemma ReleaseReference_positive_counts:
  assumes "positive_counts s"
  shows "positive_counts (fst (ReleaseReference s x))"
proof (cases "x = nullptr \<or> container s x = None")
  case True
  then have "ReleaseReference s x = (s, - 1)"
    by (auto simp: ReleaseReference_null ReleaseReference_absent)
  with assms show ?thesis by simp
next
  case False
  then obtain c where x: "x \<noteq> nullptr" and c: "container s x = Some c" by auto
  from assms c have pos: "0 < sint c" by (simp add: positive_counts_def)
  show ?thesis
  proof (cases "c = 1")
    case True
    with x c show ?thesis
      by (simp add: ReleaseReference_last positive_counts_erase [OF assms])
  next
    case False
    from pos have "sint (c - 1) = sint c - 1" by (intro sint_pred) simp
    moreover from False have "sint c \<noteq> 1"
      using word_eq_iff_signed [of c 1, where ?'a = int] by simp
    ultimately have "0 < sint (c - 1)" using pos by simp
    with x c False show ?thesis
      by (simp add: ReleaseReference_more positive_counts_update [OF assms])
  qed
qed

lemma AddReference_positive_counts:
  assumes "positive_counts s" and "\<forall>c. container s x = Some c \<longrightarrow> sint c < 2 ^ 31 - 1"
    and "AddReference d s x = Inr (s', r)"
  shows "positive_counts s'"
proof (cases "container s x")
  case None
  with assms(3) have "s' = s\<lparr>container := (container s)(x \<mapsto> 1)\<rparr>"
    by (auto simp: AddReference_def emplace_def split: if_splits)
  then show ?thesis by (simp add: positive_counts_update [OF assms(1)])
next
  case (Some c)
  with assms(3) have s': "s' = s\<lparr>container := (container s)(x \<mapsto> c + 1)\<rparr>"
    by (auto simp: AddReference_def Let_def split: if_splits)
  from assms(1) Some have "0 < sint c" by (simp add: positive_counts_def)
  moreover from assms(2) Some have "sint (c + 1) = sint c + 1" by (intro sint_succ) simp
  ultimately have "0 < sint (c + 1)" by simp
  then show ?thesis unfolding s' by (rule positive_counts_update [OF assms(1)])
qed

lemma do_call_deleted:
  assumes "do_call d t c = Inr (t', r)"
  shows "deleted t' = deleted t @
      (case c of
         Add x \<Rightarrow> []
       | Release x \<Rightarrow> if x \<noteq> nullptr \<and> container t x = Some 1 then [x] else []
       | Mutex \<Rightarrow> [])"
proof (cases c)
  case (Add x)
  with assms obtain r' where "AddReference d t x = Inr (t', r')"
    by (auto split: sum.splits)
  then have "deleted t' = deleted t" by (rule AddReference_deleted)
  with Add show ?thesis by simp
next
  case (Release x)
  with assms have "t' = fst (ReleaseReference t x)"
    by (auto split: prod.splits)
  with Release show ?thesis by (simp only: ReleaseReference_deleted call.case)
next
  case Mutex
  with assms show ?thesis by simp
qed

subsection \<open>Interleavings of threads\<close>

lemma interleaving_count:
  "interleaving ts cs \<Longrightarrow> count_list cs a = sum_list (map (\<lambda>t. count_list t a) ts)"
proof (induction rule: interleaving.induct)
  case (finished ts)
  then have "map (\<lambda>t. count_list t a) ts = map (\<lambda>t. 0) ts" by auto
  then show ?case by simp
next
  case (step i ts c rest cs)
  let ?f = "\<lambda>t. count_list t a"
  have "sum_list (map ?f (ts[i := rest])) = sum_list ((map ?f ts)[i := ?f rest])"
    by (simp add: map_update)
  also have "\<dots> = sum_list (map ?f ts) + ?f rest - (map ?f ts) ! i"
    using step.hyps(1) by (simp add: sum_list_update)
  also have "\<dots> = sum_list (map ?f ts) + ?f rest - ?f (c # rest)"
    using step.hyps(1,2) by simp
  finally have upd: "sum_list (map ?f (ts[i := rest])) =
      sum_list (map ?f ts) + ?f rest - ?f (c # rest)" .
  have "ts ! i \<in> set ts" using step.hyps(1) by simp
  then have "?f (ts ! i) \<in> set (map ?f ts)" by (simp only: set_map image_eqI)
  then have "?f (ts ! i) \<le> sum_list (map ?f ts)" by (intro member_le_sum_list) auto
  then have "?f (c # rest) \<le> sum_list (map ?f ts)"
    by (simp only: step.hyps(2))
  with upd step.IH show ?case by (cases "c = a") simp_all
qed

lemma interleaving_set:
  "interleaving ts cs \<Longrightarrow> set cs \<subseteq> \<Union> (set ` set ts)"
proof (induction rule: interleaving.induct)
  case (finished ts)
  then show ?case by simp
next
  case (step i ts c rest cs)
  have "c \<in> set (ts ! i)" using step.hyps(2) by simp
  with step.hyps(1) have c: "c \<in> \<Union> (set ` set ts)" by (metis UN_I nth_mem)
  have "\<Union> (set ` set (ts[i := rest])) \<subseteq> \<Union> (set ` set ts)"
  proof
    fix a assume "a \<in> \<Union> (set ` set (ts[i := rest]))"
    then obtain t where t: "t \<in> set (ts[i := rest])" and a: "a \<in> set t" by auto
    from t have "t = rest \<or> t \<in> set ts" using set_update_subset_insert by fastforce
    then show "a \<in> \<Union> (set ` set ts)"
    proof
      assume "t = rest"
      with a step.hyps(2) have "a \<in> set (ts ! i)" by simp
      with step.hyps(1) show ?thesis by (metis UN_I nth_mem)
    next
      assume "t \<in> set ts"
      with a show ?thesis by auto
    qed
  qed
  with step.IH c show ?case by auto
qed

lemma length_two_kinds:
  "set cs \<subseteq> {a, b} \<Longrightarrow> a \<noteq> b \<Longrightarrow> length cs = count_list cs a + count_list cs b"
  by (induction cs) auto


lemma threads_counts:
  assumes "interleaving (replicate N [Add x, Release x]) cs"
  shows "count_list cs (Add x) = N" and "count_list cs (Release x) = N"
    and "set cs \<subseteq> {Add x, Release x}" and "length cs = 2 * N"
proof -
  show a: "count_list cs (Add x) = N"
    using interleaving_count [OF assms, of "Add x"] by (simp add: sum_list_replicate)
  show r: "count_list cs (Release x) = N"
    using interleaving_count [OF assms, of "Release x"] by (simp add: sum_list_replicate)
  have "\<Union> (set ` set (replicate N [Add x, Release x])) \<subseteq> {Add x, Release x}"
    by (cases "N = 0") simp_all
  with interleaving_set [OF assms] show s: "set cs \<subseteq> {Add x, Release x}"
    by (rule subset_trans)
  have "length cs = count_list cs (Add x) + count_list cs (Release x)"
    using s by (rule length_two_kinds) simp
  with a r show "length cs = 2 * N" by simp
qed

section \<open>Claims\<close>

text \<open>
  In what follows an instance is a non-null pointer: \<open>nullptr\<close> stands for the absence of
  an instance, and \<open>ReleaseReference\<close> treats it so.
\<close>

text \<open>
  C1. For an instance \<open>x\<close> tracked with count exactly 1, \<open>ReleaseReference x\<close> returns 0,
  passes \<open>x\<close> to \<open>delete\<close> exactly once and erases the entry of \<open>x\<close> in the same call.
  From then on, after any calls that do not add \<open>x\<close> again (none, in particular),
  \<open>ReleaseReference x\<close> returns \<open>-1\<close> and changes nothing.
\<close>

theorem C1_release_last_reference:
  assumes "x \<noteq> nullptr" and "container s x = Some 1"
  shows "ReleaseReference s x =
           (s\<lparr>container := (container s)(x := None), deleted := deleted s @ [x]\<rparr>, 0)
       \<and> count_list (deleted (fst (ReleaseReference s x))) x = count_list (deleted s) x + 1
       \<and> (\<forall>d cs s' rs.
             Add x \<notin> set cs \<and> exec d (fst (ReleaseReference s x)) cs = Inr (s', rs)
             \<longrightarrow> ReleaseReference s' x = (s', - 1))"
proof -
  let ?t = "s\<lparr>container := (container s)(x := None), deleted := deleted s @ [x]\<rparr>"
  have rel: "ReleaseReference s x = (?t, 0)"
    using assms by (rule ReleaseReference_last)
  have gone: "container ?t x = None" by simp
  have later: "ReleaseReference s' x = (s', - 1)"
    if "Add x \<notin> set cs" and "exec d ?t cs = Inr (s', rs)" for d cs s' rs
    using exec_untracked [OF that(2) that(1) gone] by (rule ReleaseReference_absent)
  from rel later show ?thesis by auto
qed

theorem C1_release_last_reference_witness:
  "ReleaseReference \<lparr>container = [7 \<mapsto> 1, 9 \<mapsto> 2], deleted = []\<rparr> 7 =
     (\<lparr>container = [9 \<mapsto> 2], deleted = [7]\<rparr>, 0)
   \<and> exec True \<lparr>container = [9 \<mapsto> 2], deleted = [7]\<rparr> [Release 9, Mutex, Add 9] =
       Inr (\<lparr>container = [9 \<mapsto> 2], deleted = [7]\<rparr>, [Count 1, Mutex_Ref, Count 2])
   \<and> ReleaseReference \<lparr>container = [9 \<mapsto> 2], deleted = [7]\<rparr> 7 =
       (\<lparr>container = [9 \<mapsto> 2], deleted = [7]\<rparr>, - 1)"
proof -
  let ?s = "\<lparr>container = [7 \<mapsto> 1, 9 \<mapsto> (2::int32)], deleted = []\<rparr>"
  let ?t = "\<lparr>container = [9 \<mapsto> (2::int32)], deleted = [7]\<rparr>"
  let ?cs = "[Release 9, Mutex, Add 9]"
  have h1: "(7::ptr) \<noteq> nullptr" by (simp add: nullptr_def)
  have h2: "container ?s 7 = Some 1" by simp
  have m: "[7 \<mapsto> 1, 9 \<mapsto> (2::int32)]((7::ptr) := None) = [9 \<mapsto> 2]"
    by (rule ext) simp
  have e: "exec True ?t ?cs = Inr (?t, [Count 1, Mutex_Ref, Count 2])"
    by (simp add: ReleaseReference_def AddReference_def nullptr_def)
  note th = C1_release_last_reference [OF h1 h2]
  from th have a: "ReleaseReference ?s 7 = (?t, 0)"
    by (simp add: m)
  from th have
    "Add 7 \<notin> set ?cs \<and> exec True (fst (ReleaseReference ?s 7)) ?cs =
        Inr (?t, [Count 1, Mutex_Ref, Count 2])
      \<longrightarrow> ReleaseReference ?t 7 = (?t, - 1)"
    by blast
  with a e have "ReleaseReference ?t 7 = (?t, - 1)" by simp
  with a e show ?thesis by simp
qed

text \<open>
  C2, as stated, at the largest \<open>int32_t\<close>. The claim lets the count returned by
  \<open>AddReference\<close> always be at least 1. With \<open>x\<close> tracked at count \<open>2147483647\<close> the
  increment \<open>++it->second\<close> leaves the range of \<open>int32_t\<close>: the stored and returned count
  is \<open>-2147483648\<close>.
\<close>

theorem C2_overflow_at_int32_max:
  "AddReference False \<lparr>container = [1 \<mapsto> 2147483647], deleted = []\<rparr> 1 =
     Inr (\<lparr>container = [1 \<mapsto> 2147483648], deleted = []\<rparr>, 2147483648)
   \<and> sint (2147483647 :: int32) = 2147483647
   \<and> sint (2147483648 :: int32) = - 2147483648
   \<and> \<not> 1 \<le> sint (2147483648 :: int32)"
  by (simp add: AddReference_def nullptr_def)

text \<open>
  C2, amended. For a non-null instance \<open>x\<close>, \<open>AddReference x\<close> returns (no assertion
  fails); it increments the count of \<open>x\<close> if \<open>x\<close> is in the table and inserts \<open>x\<close> with
  count 1 otherwise; it returns the count now stored for \<open>x\<close>; it passes nothing to
  \<open>delete\<close>. If the count before the call is below \<open>2^31 - 1\<close>, the returned count is that
  count plus one as a number, and if moreover every stored count is positive, the
  returned count is at least 1.
\<close>

theorem C2_add_reference:
  assumes "x \<noteq> nullptr"
  shows "\<exists>s' r. AddReference d s x = Inr (s', r)
      \<and> container s' = (container s)(x \<mapsto> (case container s x of None \<Rightarrow> 1 | Some c \<Rightarrow> c + 1))
      \<and> container s' x = Some r
      \<and> deleted s' = deleted s
      \<and> (\<forall>c. container s x = Some c \<and> sint c < 2 ^ 31 - 1 \<longrightarrow> sint r = sint c + 1)
      \<and> (positive_counts s \<and> (\<forall>c. container s x = Some c \<longrightarrow> sint c < 2 ^ 31 - 1)
           \<longrightarrow> 1 \<le> sint r)"
proof (cases "container s x")
  case None
  with assms show ?thesis
    by (simp add: AddReference_absent)
next
  case (Some c)
  have "1 \<le> sint (c + 1)" if "positive_counts s" and "sint c < 2 ^ 31 - 1"
  proof -
    from that(1) Some have "0 < sint c" by (simp add: positive_counts_def)
    with sint_succ [OF that(2)] show ?thesis by simp
  qed
  with assms Some show ?thesis
    by (simp add: AddReference_present sint_succ)
qed

theorem C2_add_reference_witness:
  "AddReference True \<lparr>container = [5 \<mapsto> 3], deleted = [2]\<rparr> 5 =
     Inr (\<lparr>container = [5 \<mapsto> 4], deleted = [2]\<rparr>, 4)
   \<and> 1 \<le> sint (4 :: int32)"
proof -
  let ?s = "\<lparr>container = [5 \<mapsto> (3::int32)], deleted = [2]\<rparr>"
  have h1: "(5::ptr) \<noteq> nullptr" by (simp add: nullptr_def)
  have h2: "positive_counts ?s" by (simp add: positive_counts_def)
  have h3: "\<forall>c. container ?s 5 = Some c \<longrightarrow> sint c < 2 ^ 31 - 1" by simp
  from C2_add_reference [OF h1, of True ?s] obtain s' r where
    a: "AddReference True ?s 5 = Inr (s', r)"
    and b: "positive_counts ?s \<and> (\<forall>c. container ?s 5 = Some c \<longrightarrow> sint c < 2 ^ 31 - 1)
              \<longrightarrow> 1 \<le> sint r"
    by blast
  from b h2 h3 have c: "1 \<le> sint r" by blast
  have "AddReference True ?s 5 = Inr (\<lparr>container = [5 \<mapsto> 4], deleted = [2]\<rparr>, 4)"
    by (simp add: AddReference_def nullptr_def)
  with a c show ?thesis by simp
qed

text \<open>
  C3, as stated, at the largest \<open>int32_t\<close>. The claim lets every operation keep all
  stored counts positive from any reachable state. The state with the instance at
  address 1 tracked at count \<open>2147483647\<close> is reached from the new manager by that many
  calls of \<open>AddReference\<close>, and all its counts are positive. One more \<open>AddReference\<close>
  stores the count \<open>-2147483648\<close>: the entry stays in the table with a negative count.
\<close>

theorem C3_overflow_breaks_invariant:
  "\<not> isl (exec False CppInstanceManager (replicate 2147483647 (Add 1)))
   \<and> fst (projr (exec False CppInstanceManager (replicate 2147483647 (Add 1))))
       = \<lparr>container = [1 \<mapsto> 2147483647], deleted = []\<rparr>
   \<and> positive_counts \<lparr>container = [1 \<mapsto> 2147483647], deleted = []\<rparr>
   \<and> AddReference False \<lparr>container = [1 \<mapsto> 2147483647], deleted = []\<rparr> 1
       = Inr (\<lparr>container = [1 \<mapsto> 2147483648], deleted = []\<rparr>, 2147483648)
   \<and> \<not> positive_counts \<lparr>container = [1 \<mapsto> 2147483648], deleted = []\<rparr>"
proof -
  have "positive_counts \<lparr>container = [1 \<mapsto> 2147483647], deleted = []\<rparr>"
    by (simp add: positive_counts_def)
  moreover have "AddReference False \<lparr>container = [1 \<mapsto> 2147483647], deleted = []\<rparr> 1
       = Inr (\<lparr>container = [1 \<mapsto> 2147483648], deleted = []\<rparr>, 2147483648)"
    by (simp add: AddReference_def nullptr_def)
  moreover have "\<not> positive_counts \<lparr>container = [1 \<mapsto> 2147483648], deleted = []\<rparr>"
    by (simp add: positive_counts_def)
  ultimately show ?thesis using int32_max_reachable by blast
qed

text \<open>
  C3, amended. The new manager has only positive counts (it has none).
  \<open>ReleaseReference\<close> keeps all stored counts positive, from every state, and erases
  the entry of an instance whose count is 1 in that same call. \<open>AddReference x\<close> keeps
  all stored counts positive provided the count of \<open>x\<close>, if \<open>x\<close> is tracked, is below
  \<open>2^31 - 1\<close>.
\<close>

theorem C3_invariant:
  "(positive_counts s \<longrightarrow> positive_counts (fst (ReleaseReference s x)))
   \<and> (x \<noteq> nullptr \<and> container s x = Some 1 \<longrightarrow>
        container (fst (ReleaseReference s x)) x = None)
   \<and> (\<forall>d s' r. positive_counts s
          \<and> (\<forall>c. container s x = Some c \<longrightarrow> sint c < 2 ^ 31 - 1)
          \<and> AddReference d s x = Inr (s', r) \<longrightarrow> positive_counts s')
   \<and> positive_counts CppInstanceManager"
proof (intro conjI allI impI)
  show "positive_counts (fst (ReleaseReference s x))" if "positive_counts s"
    using that by (rule ReleaseReference_positive_counts)
  show "container (fst (ReleaseReference s x)) x = None"
    if "x \<noteq> nullptr \<and> container s x = Some 1"
    using that by (simp add: ReleaseReference_last)
  show "positive_counts s'"
    if "positive_counts s \<and> (\<forall>c. container s x = Some c \<longrightarrow> sint c < 2 ^ 31 - 1)
          \<and> AddReference d s x = Inr (s', r)" for d s' r
    using that AddReference_positive_counts by blast
  show "positive_counts CppInstanceManager"
    by (simp add: positive_counts_def CppInstanceManager_def)
qed

theorem C3_invariant_witness:
  "positive_counts \<lparr>container = [5 \<mapsto> 1, 6 \<mapsto> 2], deleted = []\<rparr>
   \<and> positive_counts (fst (ReleaseReference \<lparr>container = [5 \<mapsto> 1, 6 \<mapsto> 2], deleted = []\<rparr> 5))
   \<and> container (fst (ReleaseReference \<lparr>container = [5 \<mapsto> 1, 6 \<mapsto> 2], deleted = []\<rparr> 5)) 5 = None
   \<and> AddReference True \<lparr>container = [5 \<mapsto> 1, 6 \<mapsto> 2], deleted = []\<rparr> 6
        = Inr (\<lparr>container = [5 \<mapsto> 1, 6 \<mapsto> 3], deleted = []\<rparr>, 3)
   \<and> positive_counts \<lparr>container = [5 \<mapsto> 1, 6 \<mapsto> 3], deleted = []\<rparr>"
proof -
  let ?s = "\<lparr>container = [5 \<mapsto> 1, 6 \<mapsto> (2::int32)], deleted = []\<rparr>"
  let ?t = "\<lparr>container = [5 \<mapsto> 1, 6 \<mapsto> (3::int32)], deleted = []\<rparr>"
  have h1: "positive_counts ?s" by (simp add: positive_counts_def)
  have h2: "(5::ptr) \<noteq> nullptr \<and> container ?s 5 = Some 1" by (simp add: nullptr_def)
  have h3: "\<forall>c. container ?s 6 = Some c \<longrightarrow> sint c < 2 ^ 31 - 1" by simp
  have h4: "AddReference True ?s 6 = Inr (?t, 3)"
    by (simp add: AddReference_def nullptr_def)
  from C3_invariant [of ?s 5] h1 h2
  have a: "positive_counts (fst (ReleaseReference ?s 5))"
    and b: "container (fst (ReleaseReference ?s 5)) 5 = None"
    by blast+
  from C3_invariant [of ?s 6] h1 h3 h4 have c: "positive_counts ?t" by blast
  from h1 a b h4 c show ?thesis by blast
qed

text \<open>
  C4, as stated, at a stored count of 0. The claim has \<open>ReleaseReference x\<close> return
  \<open>-1\<close> only for \<open>x\<close> null or not in the table, and then change nothing, in every state
  of the registry. After \<open>4294967296\<close> calls of \<open>AddReference\<close> on the instance at address
  1, from the new manager, that instance is in the table with the wrapped count 0.
  \<open>ReleaseReference\<close> on it decrements the count to \<open>-1\<close>, which is not 0, so it returns
  \<open>-1\<close> for a tracked instance and rewrites its entry.
\<close>

theorem C4_release_at_count_zero:
  "\<not> isl (exec False CppInstanceManager (replicate 4294967296 (Add 1)))
   \<and> fst (projr (exec False CppInstanceManager (replicate 4294967296 (Add 1))))
       = \<lparr>container = [1 \<mapsto> 0], deleted = []\<rparr>
   \<and> (1::ptr) \<noteq> nullptr
   \<and> container \<lparr>container = [1 \<mapsto> 0], deleted = []\<rparr> 1 = Some 0
   \<and> ReleaseReference \<lparr>container = [1 \<mapsto> 0], deleted = []\<rparr> 1
       = (\<lparr>container = [1 \<mapsto> - 1], deleted = []\<rparr>, - 1)"
proof -
  have "(1::ptr) \<noteq> nullptr" by (simp add: nullptr_def)
  moreover have "container \<lparr>container = [1 \<mapsto> (0::int32)], deleted = []\<rparr> (1::ptr) = Some 0"
    by simp
  moreover have "ReleaseReference \<lparr>container = [1 \<mapsto> 0], deleted = []\<rparr> 1
       = (\<lparr>container = [1 \<mapsto> - 1], deleted = []\<rparr>, - 1)"
    by (simp add: ReleaseReference_def Let_def nullptr_def)
  ultimately show ?thesis using count_zero_reachable by blast
qed

text \<open>
  C4, amended. \<open>ReleaseReference x\<close> with \<open>x\<close> null or not in the table returns \<open>-1\<close> and
  leaves the whole state as it was: no entry added, erased or changed, nothing passed to
  \<open>delete\<close>. This holds in every state. In every state where \<open>x\<close> is not stored with
  count 0, and so in every state whose stored counts are all positive, these are the
  only calls that return \<open>-1\<close>.
\<close>

theorem C4_release_untracked:
  "(x = nullptr \<or> container s x = None \<longrightarrow> ReleaseReference s x = (s, - 1))
   \<and> (container s x \<noteq> Some 0 \<longrightarrow>
         (snd (ReleaseReference s x) = - 1 \<longleftrightarrow> x = nullptr \<or> container s x = None))
   \<and> (positive_counts s \<longrightarrow>
         (snd (ReleaseReference s x) = - 1 \<longleftrightarrow> x = nullptr \<or> container s x = None))"
proof -
  have a: "ReleaseReference s x = (s, - 1)" if "x = nullptr \<or> container s x = None"
    using that by (auto simp: ReleaseReference_null ReleaseReference_absent)
  have b: "snd (ReleaseReference s x) \<noteq> - 1"
    if "x \<noteq> nullptr" "container s x = Some c" "c \<noteq> 0" for c
  proof -
    from that(3) have "c - 1 \<noteq> - 1" by simp
    with that show ?thesis by (simp add: ReleaseReference_def Let_def)
  qed
  have c: "container s x \<noteq> Some 0" if "positive_counts s"
  proof
    assume "container s x = Some 0"
    with that have "0 < sint (0::int32)" unfolding positive_counts_def by blast
    then show False by simp
  qed
  have d: "snd (ReleaseReference s x) = - 1 \<longleftrightarrow> x = nullptr \<or> container s x = None"
    if "container s x \<noteq> Some 0"
  proof (cases "x = nullptr \<or> container s x = None")
    case True
    with a show ?thesis by simp
  next
    case False
    then obtain c where "x \<noteq> nullptr" "container s x = Some c" by auto
    with that b [of c] False show ?thesis by auto
  qed
  show ?thesis
  proof (intro conjI impI)
    assume "x = nullptr \<or> container s x = None"
    then show "ReleaseReference s x = (s, - 1)" by (rule a)
  next
    assume "container s x \<noteq> Some 0"
    then show "snd (ReleaseReference s x) = - 1 \<longleftrightarrow> x = nullptr \<or> container s x = None"
      by (rule d)
  next
    assume "positive_counts s"
    then have "container s x \<noteq> Some 0" by (rule c)
    then show "snd (ReleaseReference s x) = - 1 \<longleftrightarrow> x = nullptr \<or> container s x = None"
      by (rule d)
  qed
qed

theorem C4_release_untracked_witness:
  "ReleaseReference \<lparr>container = [5 \<mapsto> 3], deleted = [2]\<rparr> 8 =
     (\<lparr>container = [5 \<mapsto> 3], deleted = [2]\<rparr>, - 1)
   \<and> ReleaseReference \<lparr>container = [5 \<mapsto> 3], deleted = [2]\<rparr> nullptr =
     (\<lparr>container = [5 \<mapsto> 3], deleted = [2]\<rparr>, - 1)
   \<and> snd (ReleaseReference \<lparr>container = [5 \<mapsto> 3], deleted = [2]\<rparr> 5) \<noteq> - 1"
proof -
  let ?s = "\<lparr>container = [5 \<mapsto> (3::int32)], deleted = [2]\<rparr>"
  have h: "positive_counts ?s" by (simp add: positive_counts_def)
  have n: "(5::ptr) \<noteq> nullptr" by (simp add: nullptr_def)
  from C4_release_untracked [of 8 ?s] have a: "ReleaseReference ?s 8 = (?s, - 1)"
    by simp
  from C4_release_untracked [of nullptr ?s] have b: "ReleaseReference ?s nullptr = (?s, - 1)"
    by simp
  have z: "container ?s 5 \<noteq> Some 0" by simp
  from C4_release_untracked [of 5 ?s] h z n have c: "snd (ReleaseReference ?s 5) \<noteq> - 1"
    by simp
  from a b c show ?thesis by simp
qed

text \<open>
  C5. For an instance \<open>x\<close> tracked with a count \<open>n > 1\<close>, \<open>ReleaseReference x\<close> returns
  \<open>n - 1\<close>, keeps \<open>x\<close> in the table with that count and deletes nothing; an
  \<open>AddReference x\<close> right after it returns \<open>n\<close> and restores the state before the release.
\<close>

theorem C5_release_keeps_tracked:
  assumes "x \<noteq> nullptr" and "container s x = Some c" and "1 < sint c"
  shows "ReleaseReference s x = (s\<lparr>container := (container s)(x \<mapsto> c - 1)\<rparr>, c - 1)
       \<and> sint (c - 1) = sint c - 1
       \<and> container (fst (ReleaseReference s x)) x = Some (c - 1)
       \<and> deleted (fst (ReleaseReference s x)) = deleted s
       \<and> AddReference d (fst (ReleaseReference s x)) x = Inr (s, c)"
proof -
  from assms(3) have ne: "c \<noteq> 1" by auto
  have rel: "ReleaseReference s x = (s\<lparr>container := (container s)(x \<mapsto> c - 1)\<rparr>, c - 1)"
    using assms(1,2) ne by (rule ReleaseReference_more)
  have "- (2 ^ 31) < sint c" using assms(3) by simp
  then have dec: "sint (c - 1) = sint c - 1" by (rule sint_pred)
  have same: "(container s)(x \<mapsto> c) = container s"
    using assms(2) by (rule map_upd_triv)
  have "AddReference d (s\<lparr>container := (container s)(x \<mapsto> c - 1)\<rparr>) x = Inr (s, c)"
    using assms(1) same by (simp add: AddReference_present)
  with rel dec show ?thesis by simp
qed

theorem C5_release_keeps_tracked_witness:
  "ReleaseReference \<lparr>container = [5 \<mapsto> 3], deleted = [2]\<rparr> 5 =
     (\<lparr>container = [5 \<mapsto> 2], deleted = [2]\<rparr>, 2)
   \<and> AddReference True \<lparr>container = [5 \<mapsto> 2], deleted = [2]\<rparr> 5 =
     Inr (\<lparr>container = [5 \<mapsto> 3], deleted = [2]\<rparr>, 3)"
proof -
  let ?s = "\<lparr>container = [5 \<mapsto> (3::int32)], deleted = [2]\<rparr>"
  have h1: "(5::ptr) \<noteq> nullptr" by (simp add: nullptr_def)
  have h2: "container ?s 5 = Some 3" by simp
  have h3: "1 < sint (3::int32)" by simp
  let ?t = "\<lparr>container = [5 \<mapsto> (2::int32)], deleted = [2]\<rparr>"
  note th = C5_release_keeps_tracked [OF h1 h2 h3, of True]
  from th have a: "ReleaseReference ?s 5 = (?t, 2)" by simp
  from th have "AddReference True (fst (ReleaseReference ?s 5)) 5 = Inr (?s, 3)" by blast
  with a show ?thesis by simp
qed

text \<open>
  C6, as stated, at \<open>n = 2^31\<close>. The claim lets the \<open>n\<close>-th of \<open>n\<close> consecutive calls of
  \<open>AddReference x\<close> return \<open>n\<close> for every \<open>n \<ge> 1\<close>. From the new manager, all
  \<open>2147483648\<close> calls return, and the last one returns the \<open>int32_t\<close> with the bits of
  \<open>2147483648\<close>, which is \<open>-2147483648\<close>.
\<close>

theorem C6_adds_overflow:
  "\<not> isl (exec False CppInstanceManager (replicate 2147483648 (Add 1)))
   \<and> last (snd (projr (exec False CppInstanceManager (replicate 2147483648 (Add 1)))))
       = Count 2147483648
   \<and> sint (2147483648 :: int32) = - 2147483648
   \<and> sint (2147483648 :: int32) \<noteq> 2147483648"
proof -
  have h1: "(1::ptr) \<noteq> nullptr" by (simp add: nullptr_def)
  have h2: "container CppInstanceManager 1 = None" by (simp add: CppInstanceManager_def)
  have h3: "(0::nat) < 2147483648" by simp
  have h4: "(2147483648::nat) < 2 ^ 32" by simp
  from exec_adds [OF h1 h2 h3 h4, of False] obtain s' rs where
    "exec False CppInstanceManager (replicate 2147483648 (Add 1)) = Inr (s', rs)"
    and "last rs = Count (of_nat 2147483648)"
    by blast
  moreover have "(of_nat 2147483648 :: int32) = 2147483648" by simp
  moreover have "sint (2147483648 :: int32) = - 2147483648" by simp
  moreover have "sint (2147483648 :: int32) \<noteq> 2147483648" by simp
  ultimately show ?thesis by (simp only: sum.disc sum.sel snd_conv simp_thms)
qed

text \<open>
  C6, amended. For an instance \<open>x\<close> that is not tracked and \<open>1 \<le> n \<le> 2^31 - 1\<close>,
  \<open>n\<close> consecutive calls of \<open>AddReference x\<close> all return, and the \<open>m\<close>-th of them
  returns \<open>m\<close>, for every \<open>m\<close> from 1 to \<open>n\<close>: the first returns 1, the \<open>n\<close>-th
  returns \<open>n\<close>, and the returned counts increase strictly.
\<close>

theorem C6_consecutive_adds:
  assumes "x \<noteq> nullptr" and "container s x = None" and "0 < n" and "n < 2 ^ 31"
  shows "\<exists>s' rs. exec d s (replicate n (Add x)) = Inr (s', rs)
      \<and> length rs = n
      \<and> (\<forall>m. 0 < m \<and> m \<le> n \<longrightarrow> (\<exists>r. rs ! (m - 1) = Count r \<and> sint r = int m))"
proof -
  have n32: "n < 2 ^ 32" using assms(4) by simp
  from exec_adds [OF assms(1,2,3) n32, of d] obtain s' rs where
    run: "exec d s (replicate n (Add x)) = Inr (s', rs)" and len: "length rs = n"
    by blast
  have "\<exists>r. rs ! (m - 1) = Count r \<and> sint r = int m" if m: "0 < m \<and> m \<le> n" for m
  proof -
    from m have "replicate n (Add x) = replicate m (Add x) @ replicate (n - m) (Add x)"
      by (simp flip: replicate_add)
    with run have "exec d s (replicate m (Add x) @ replicate (n - m) (Add x)) = Inr (s', rs)"
      by simp
    from exec_prefix [OF this] obtain t rs1 rs2 where
      pre: "exec d s (replicate m (Add x)) = Inr (t, rs1)" and rs: "rs = rs1 @ rs2"
      by blast
    from m assms(4) have m31: "m < 2 ^ 31" and m32: "m < 2 ^ 32" by simp_all
    from m have m0: "0 < m" by simp
    from exec_adds [OF assms(1,2) m0 m32, of d] pre
    have l: "length rs1 = m" and r: "last rs1 = Count (of_nat m)" by auto
    from l m0 have "rs1 \<noteq> []" by auto
    with l have "last rs1 = rs1 ! (m - 1)" by (simp add: last_conv_nth)
    with rs l m0 have "rs ! (m - 1) = last rs1" by (simp add: nth_append)
    with r sint_of_nat_int32 [OF m31] show ?thesis by simp
  qed
  with run len show ?thesis by blast
qed

theorem C6_consecutive_adds_witness:
  "exec True CppInstanceManager (replicate 3 (Add 4)) =
     Inr (\<lparr>container = [4 \<mapsto> 3], deleted = []\<rparr>, [Count 1, Count 2, Count 3])
   \<and> sint (1 :: int32) = 1 \<and> sint (2 :: int32) = 2 \<and> sint (3 :: int32) = 3"
proof -
  have h1: "(4::ptr) \<noteq> nullptr" by (simp add: nullptr_def)
  have h2: "container CppInstanceManager 4 = None" by (simp add: CppInstanceManager_def)
  have h3: "(0::nat) < 3" by simp
  have h4: "(3::nat) < 2 ^ 31" by simp
  have e: "exec True CppInstanceManager (replicate 3 (Add 4)) =
     Inr (\<lparr>container = [4 \<mapsto> 3], deleted = []\<rparr>, [Count 1, Count 2, Count 3])"
    by (simp add: numeral_3_eq_3 AddReference_def emplace_def nullptr_def CppInstanceManager_def)
  from C6_consecutive_adds [OF h1 h2 h3 h4, of True] e show ?thesis
    by simp
qed

text \<open>
  C7. In every sequence of calls of \<open>AddReference\<close>, \<open>ReleaseReference\<close> and \<open>mutex\<close>
  that runs to its end, take any call \<open>c\<close> of it, the state \<open>t\<close> before \<open>c\<close> and the
  state \<open>t'\<close> after it. What \<open>c\<close> passes to \<open>delete\<close> is: the instance \<open>x\<close>, once, if \<open>c\<close>
  is \<open>ReleaseReference x\<close> with \<open>x\<close> non-null and tracked in \<open>t\<close> with count 1; nothing in
  every other case, in particular when \<open>c\<close> is an \<open>AddReference\<close> or \<open>mutex\<close>.
\<close>

theorem C7_deleted_only_by_last_release:
  assumes "exec d s (pre @ c # post) = Inr (u, rs)"
  shows "\<exists>t rs1 t' r. exec d s pre = Inr (t, rs1) \<and> do_call d t c = Inr (t', r)
      \<and> deleted t' = deleted t @
          (case c of
             Add x \<Rightarrow> []
           | Release x \<Rightarrow> if x \<noteq> nullptr \<and> container t x = Some 1 then [x] else []
           | Mutex \<Rightarrow> [])"
proof -
  from exec_prefix [OF assms] obtain t rs1 rs2 where
    pre: "exec d s pre = Inr (t, rs1)" and rest: "exec d t (c # post) = Inr (u, rs2)"
    by blast
  from rest obtain t' r where call: "do_call d t c = Inr (t', r)"
    by (auto split: sum.splits)
  from pre call do_call_deleted [OF call] show ?thesis by blast
qed

theorem C7_deleted_only_by_last_release_witness:
  "exec True CppInstanceManager ([Add 1, Add 1, Release 1] @ Release 1 # [Mutex, Release 1])
     = Inr (\<lparr>container = Map.empty, deleted = [1]\<rparr>,
            [Count 1, Count 2, Count 1, Count 0, Mutex_Ref, Count (- 1)])
   \<and> exec True CppInstanceManager [Add 1, Add 1, Release 1]
     = Inr (\<lparr>container = [1 \<mapsto> 1], deleted = []\<rparr>, [Count 1, Count 2, Count 1])
   \<and> do_call True \<lparr>container = [1 \<mapsto> 1], deleted = []\<rparr> (Release 1)
     = Inr (\<lparr>container = Map.empty, deleted = [1]\<rparr>, Count 0)"
proof -
  have a: "exec True CppInstanceManager ([Add 1, Add 1, Release 1] @ Release 1 # [Mutex, Release 1])
     = Inr (\<lparr>container = Map.empty, deleted = [1]\<rparr>,
            [Count 1, Count 2, Count 1, Count 0, Mutex_Ref, Count (- 1)])"
    by (simp add: AddReference_def ReleaseReference_def emplace_def nullptr_def
          CppInstanceManager_def)
  have b: "exec True CppInstanceManager [Add 1, Add 1, Release 1]
     = Inr (\<lparr>container = [1 \<mapsto> 1], deleted = []\<rparr>, [Count 1, Count 2, Count 1])"
    by (simp add: AddReference_def ReleaseReference_def emplace_def nullptr_def
          CppInstanceManager_def)
  have c: "do_call True \<lparr>container = [1 \<mapsto> 1], deleted = []\<rparr> (Release 1)
     = Inr (\<lparr>container = Map.empty, deleted = [1]\<rparr>, Count 0)"
    by (simp add: ReleaseReference_def nullptr_def)
  from C7_deleted_only_by_last_release [OF a] obtain t rs1 t' r where
    p: "exec True CppInstanceManager [Add 1, Add 1, Release 1] = Inr (t, rs1)"
    and q: "do_call True t (Release 1) = Inr (t', r)"
    by blast
  from p b have "t = \<lparr>container = [1 \<mapsto> 1], deleted = []\<rparr>" by (simp only: sum.inject prod.inject)
  with q c have "t' = \<lparr>container = Map.empty, deleted = [1]\<rparr>" by (simp only: sum.inject prod.inject)
  with a b c show ?thesis by (intro conjI)
qed

text \<open>
  C8, as stated, for two threads that run one after the other. The claim lets every
  interleaving of \<open>N\<close> threads, each calling \<open>AddReference x\<close> and later
  \<open>ReleaseReference x\<close>, delete \<open>x\<close> exactly once, after all \<open>N\<close> releases. In the
  interleaving where the first thread has released before the second one adds, the
  first release already brings the count to 0 and deletes \<open>x\<close>; the second thread then
  tracks the same address anew and its release deletes it a second time.
\<close>

theorem C8_sequential_threads_delete_twice:
  "interleaving (replicate 2 [Add 1, Release 1]) [Add 1, Release 1, Add 1, Release 1]
   \<and> exec True CppInstanceManager [Add 1, Release 1]
       = Inr (\<lparr>container = Map.empty, deleted = [1]\<rparr>, [Count 1, Count 0])
   \<and> exec True CppInstanceManager [Add 1, Release 1, Add 1, Release 1]
       = Inr (\<lparr>container = Map.empty, deleted = [1, 1]\<rparr>, [Count 1, Count 0, Count 1, Count 0])"
proof -
  let ?A = "Add (1::ptr)" and ?R = "Release (1::ptr)"
  have 4: "interleaving [[], []] ([] :: call list)"
    by (rule interleaving.finished) simp
  have 3: "interleaving [[], [?R]] [?R]"
    using 4 interleaving.step [of 1 "[[], [?R]]" ?R "[]" "[]"] by simp
  have 2: "interleaving [[], [?A, ?R]] [?A, ?R]"
    using 3 interleaving.step [of 1 "[[], [?A, ?R]]" ?A "[?R]" "[?R]"] by simp
  have 1: "interleaving [[?R], [?A, ?R]] [?R, ?A, ?R]"
    using 2 interleaving.step [of 0 "[[?R], [?A, ?R]]" ?R "[]" "[?A, ?R]"] by simp
  have 0: "interleaving [[?A, ?R], [?A, ?R]] [?A, ?R, ?A, ?R]"
    using 1 interleaving.step [of 0 "[[?A, ?R], [?A, ?R]]" ?A "[?R]" "[?R, ?A, ?R]"] by simp
  have i: "interleaving (replicate 2 [?A, ?R]) [?A, ?R, ?A, ?R]"
    using 0 by (simp add: numeral_2_eq_2)
  have a: "exec True CppInstanceManager [?A, ?R]
       = Inr (\<lparr>container = Map.empty, deleted = [1]\<rparr>, [Count 1, Count 0])"
    by (simp add: AddReference_def ReleaseReference_def emplace_def nullptr_def
          CppInstanceManager_def)
  have b: "exec True CppInstanceManager [?A, ?R, ?A, ?R]
       = Inr (\<lparr>container = Map.empty, deleted = [1, 1]\<rparr>, [Count 1, Count 0, Count 1, Count 0])"
    by (simp add: AddReference_def ReleaseReference_def emplace_def nullptr_def
          CppInstanceManager_def)
  from i a b show ?thesis by (intro conjI)
qed

text \<open>
  C8, amended. Take \<open>N\<close> threads, \<open>1 \<le> N < 2^31\<close>, each calling \<open>AddReference x\<close> and
  later \<open>ReleaseReference x\<close> on one instance \<open>x\<close> that is not tracked at the start, the
  calls serialised by the mutex. In every interleaving in which, after each call but
  the last, \<open>x\<close> has been added more often than released (its count does not come back
  to 0 while a thread has still to add), all \<open>2 N\<close> calls return, nothing is deleted
  before the last call, the last call is a release, and it deletes \<open>x\<close>, once, and erases
  its entry.
\<close>

theorem C8_threads_delete_once:
  assumes "x \<noteq> nullptr" and "container s x = None"
    and "0 < N" and "N < 2 ^ 31"
    and "interleaving (replicate N [Add x, Release x]) cs"
    and "\<forall>n. 0 < n \<and> n < length cs \<longrightarrow>
           count_list (take n cs) (Release x) < count_list (take n cs) (Add x)"
  shows "\<exists>t rs s'. length cs = 2 * N \<and> last cs = Release x
      \<and> exec d s (butlast cs) = Inr (t, rs) \<and> deleted t = deleted s
      \<and> exec d s cs = Inr (s', rs @ [Count 0])
      \<and> deleted s' = deleted s @ [x] \<and> container s' x = None"
proof -
  note th = threads_counts [OF assms(5)]
  let ?bs = "butlast cs"
  from th(4) assms(3) have ne: "cs \<noteq> []" by auto
  then have split: "cs = ?bs @ [last cs]" by simp
  from th(4) assms(3) have bs_ne: "?bs \<noteq> []" by (cases cs) (auto split: if_splits)
  have sub: "set ?bs \<subseteq> {Add x, Release x}"
    using th(3) by (meson in_set_butlastD subset_iff)
  have pre: "\<forall>n. 0 < n \<and> n \<le> length ?bs \<longrightarrow>
        count_list (take n ?bs) (Release x) < count_list (take n ?bs) (Add x)"
  proof (intro allI impI)
    fix n assume n: "0 < n \<and> n \<le> length ?bs"
    then have "n \<le> length cs - 1" by simp
    moreover from ne have "length cs \<noteq> 0" by simp
    ultimately have less: "n < length cs" by arith
    with n have "0 < n \<and> n < length cs" by simp
    with assms(6) have "count_list (take n cs) (Release x) < count_list (take n cs) (Add x)"
      by blast
    moreover from less have "take n cs = take n ?bs" by (simp add: take_butlast)
    ultimately show "count_list (take n ?bs) (Release x) < count_list (take n ?bs) (Add x)"
      by simp
  qed
  have sum_a: "count_list ?bs (Add x) + count_list [last cs] (Add x) = N"
    using th(1) split by (metis count_list_append)
  have sum_r: "count_list ?bs (Release x) + count_list [last cs] (Release x) = N"
    using th(2) split by (metis count_list_append)
  from sum_a assms(4) have bound: "count_list ?bs (Add x) < 2 ^ 32" by simp
  from bs_ne pre have lt: "count_list ?bs (Release x) < count_list ?bs (Add x)"
    by (metis le_refl length_greater_0_conv take_all)
  have last: "last cs = Release x"
  proof (rule ccontr)
    assume "last cs \<noteq> Release x"
    then have "count_list [last cs] (Release x) = 0" by simp
    with sum_r sum_a lt show False by simp
  qed
  with sum_a sum_r have diff: "count_list ?bs (Add x) - count_list ?bs (Release x) = 1"
    by simp
  from exec_one_instance [OF assms(1,2) bs_ne sub pre bound, of d] diff obtain t rs where
    run: "exec d s ?bs = Inr (t, rs)" and cur: "container t x = Some 1"
    and del: "deleted t = deleted s"
    by auto
  let ?s' = "t\<lparr>container := (container t)(x := None), deleted := deleted t @ [x]\<rparr>"
  have "exec d s (?bs @ [Release x]) = Inr (?s', rs @ [Count 0])"
    using run do_call_Release_last [OF assms(1) cur] by (rule exec_snoc)
  with split last have whole: "exec d s cs = Inr (?s', rs @ [Count 0])" by simp
  have "deleted ?s' = deleted s @ [x]" using del by simp
  moreover have "container ?s' x = None" by simp
  ultimately show ?thesis using th(4) last run del whole by blast
qed


theorem C8_threads_delete_once_witness:
  "interleaving (replicate 2 [Add 1, Release 1]) [Add 1, Add 1, Release 1, Release 1]
   \<and> exec True CppInstanceManager [Add 1, Add 1, Release 1]
       = Inr (\<lparr>container = [1 \<mapsto> 1], deleted = []\<rparr>, [Count 1, Count 2, Count 1])
   \<and> exec True CppInstanceManager [Add 1, Add 1, Release 1, Release 1]
       = Inr (\<lparr>container = Map.empty, deleted = [1]\<rparr>, [Count 1, Count 2, Count 1, Count 0])"
proof -
  let ?A = "Add (1::ptr)" and ?R = "Release (1::ptr)"
  let ?cs = "[?A, ?A, ?R, ?R]"
  have 4: "interleaving [[], []] ([] :: call list)"
    by (rule interleaving.finished) simp
  have 3: "interleaving [[], [?R]] [?R]"
    using 4 interleaving.step [of 1 "[[], [?R]]" ?R "[]" "[]"] by simp
  have 2: "interleaving [[?R], [?R]] [?R, ?R]"
    using 3 interleaving.step [of 0 "[[?R], [?R]]" ?R "[]" "[?R]"] by simp
  have 1: "interleaving [[?R], [?A, ?R]] [?A, ?R, ?R]"
    using 2 interleaving.step [of 1 "[[?R], [?A, ?R]]" ?A "[?R]" "[?R, ?R]"] by simp
  have 0: "interleaving [[?A, ?R], [?A, ?R]] ?cs"
    using 1 interleaving.step [of 0 "[[?A, ?R], [?A, ?R]]" ?A "[?R]" "[?A, ?R, ?R]"] by simp
  have h1: "(1::ptr) \<noteq> nullptr" by (simp add: nullptr_def)
  have h2: "container CppInstanceManager 1 = None" by (simp add: CppInstanceManager_def)
  have h3: "(0::nat) < 2" by simp
  have h4: "(2::nat) < 2 ^ 31" by simp
  have h5: "interleaving (replicate 2 [?A, ?R]) ?cs"
    using 0 by (simp add: numeral_2_eq_2)
  have h6: "\<forall>n. 0 < n \<and> n < length ?cs \<longrightarrow>
           count_list (take n ?cs) ?R < count_list (take n ?cs) ?A"
  proof (intro allI impI)
    fix n :: nat assume "0 < n \<and> n < length ?cs"
    then have "n = 1 \<or> n = 2 \<or> n = 3" by auto
    then show "count_list (take n ?cs) ?R < count_list (take n ?cs) ?A"
      by (auto simp: numeral_2_eq_2 numeral_3_eq_3)
  qed
  have a: "exec True CppInstanceManager [?A, ?A, ?R]
       = Inr (\<lparr>container = [1 \<mapsto> 1], deleted = []\<rparr>, [Count 1, Count 2, Count 1])"
    by (simp add: AddReference_def ReleaseReference_def emplace_def nullptr_def
          CppInstanceManager_def)
  from C8_threads_delete_once [OF h1 h2 h3 h4 h5 h6, of True] obtain t rs s' where
    p: "exec True CppInstanceManager (butlast ?cs) = Inr (t, rs)"
    and q: "exec True CppInstanceManager ?cs = Inr (s', rs @ [Count 0])"
    and r: "deleted s' = deleted CppInstanceManager @ [1]"
    and u: "container s' 1 = None"
    by blast
  have b: "exec True CppInstanceManager ?cs
       = Inr (\<lparr>container = Map.empty, deleted = [1]\<rparr>, [Count 1, Count 2, Count 1, Count 0])"
    by (simp add: AddReference_def ReleaseReference_def emplace_def nullptr_def
          CppInstanceManager_def)
  from q b have "s' = \<lparr>container = Map.empty, deleted = [1]\<rparr>"
    by (simp only: sum.inject prod.inject)
  with r u h5 a b show ?thesis by (intro conjI)
qed

text \<open>
  C9. Destroying the manager passes nothing to \<open>delete\<close>, whatever entries the table
  still holds: the instances still tracked are left alive.
\<close>

theorem C9_destructor_deletes_nothing:
  "deleted (destructor s) = deleted s
   \<and> count_list (deleted (destructor s)) x = count_list (deleted s) x"
  by (simp add: destructor_def)

text \<open>
  C10. For \<open>y\<close> different from \<open>x\<close>, neither \<open>ReleaseReference x\<close> nor \<open>AddReference x\<close>
  changes the entry of \<open>y\<close> (its presence and its count), and neither passes \<open>y\<close> to
  \<open>delete\<close>.
\<close>

theorem C10_frame:
  assumes "y \<noteq> x"
  shows "container (fst (ReleaseReference s x)) y = container s y
       \<and> count_list (deleted (fst (ReleaseReference s x))) y = count_list (deleted s) y
       \<and> (\<forall>d s' r. AddReference d s x = Inr (s', r) \<longrightarrow>
             container s' y = container s y \<and> deleted s' = deleted s)"
proof -
  have a: "container (fst (ReleaseReference s x)) y = container s y"
    using assms by (rule ReleaseReference_other)
  have b: "count_list (deleted (fst (ReleaseReference s x))) y = count_list (deleted s) y"
  proof (cases "x \<noteq> nullptr \<and> container s x = Some 1")
    case True
    have "deleted (fst (ReleaseReference s x)) = deleted s @ [x]"
      unfolding ReleaseReference_deleted using True by simp
    with assms show ?thesis by simp
  next
    case False
    have "deleted (fst (ReleaseReference s x)) = deleted s"
      unfolding ReleaseReference_deleted using False by simp
    then show ?thesis by simp
  qed
  have c: "container s' y = container s y \<and> deleted s' = deleted s"
    if add: "AddReference d s x = Inr (s', r)" for d s' r
  proof
    from add assms show "container s' y = container s y" by (rule AddReference_other)
    from add show "deleted s' = deleted s" by (rule AddReference_deleted)
  qed
  show ?thesis
  proof (intro conjI allI impI)
    show "container (fst (ReleaseReference s x)) y = container s y" by (rule a)
    show "count_list (deleted (fst (ReleaseReference s x))) y = count_list (deleted s) y"
      by (rule b)
    show "container s' y = container s y" if "AddReference d s x = Inr (s', r)" for d s' r
      using c [OF that] by simp
    show "deleted s' = deleted s" if "AddReference d s x = Inr (s', r)" for d s' r
      using c [OF that] by simp
  qed
qed

theorem C10_frame_witness:
  "container (fst (ReleaseReference \<lparr>container = [6 \<mapsto> 4, 5 \<mapsto> 1], deleted = []\<rparr> 5)) 6 = Some 4
   \<and> deleted (fst (ReleaseReference \<lparr>container = [6 \<mapsto> 4, 5 \<mapsto> 1], deleted = []\<rparr> 5)) = [5]
   \<and> AddReference True \<lparr>container = [6 \<mapsto> 4, 5 \<mapsto> 1], deleted = []\<rparr> 5
       = Inr (\<lparr>container = [6 \<mapsto> 4, 5 \<mapsto> 2], deleted = []\<rparr>, 2)
   \<and> count_list (deleted (fst (ReleaseReference \<lparr>container = [6 \<mapsto> 4, 5 \<mapsto> 1], deleted = []\<rparr> 5))) 6 = 0"
proof -
  let ?s = "\<lparr>container = [6 \<mapsto> 4, 5 \<mapsto> (1::int32)], deleted = []\<rparr>"
  have h: "(6::ptr) \<noteq> 5" by simp
  have a: "AddReference True ?s 5 = Inr (\<lparr>container = [6 \<mapsto> 4, 5 \<mapsto> 2], deleted = []\<rparr>, 2)"
    by (simp add: AddReference_def nullptr_def) 
  have b: "deleted (fst (ReleaseReference ?s 5)) = [5]"
    by (simp add: ReleaseReference_def nullptr_def)
  from C10_frame [OF h, of ?s] a b show ?thesis by simp
qed

end
